theory Spec2Isabelle
  imports Main "HOL-Library.Word"
begin

section \<open>Constants of the Stream Deck driver\<close>

text \<open>
  The constants of the package, as the source declares them. The panel extent is derived
  from the button grid, as in the source.
\<close>

type_synonym byte = "8 word"

definition OutEndpointBufferSize :: nat where
  "OutEndpointBufferSize = 17"

definition NumButtons :: nat where
  "NumButtons = 15"

definition numFirstMsgPixels :: nat where
  "numFirstMsgPixels = 2583"

definition numSecondMsgPixels :: nat where
  "numSecondMsgPixels = 2601"

definition ButtonSize :: int where
  "ButtonSize = 72"

definition NumButtonColumns :: int where
  "NumButtonColumns = 5"

definition NumButtonRows :: int where
  "NumButtonRows = 3"

definition Spacer :: int where
  "Spacer = 19"

definition PanelWidth :: int where
  "PanelWidth = NumButtonColumns * ButtonSize + Spacer * (NumButtonColumns - 1)"

definition PanelHeight :: int where
  "PanelHeight = NumButtonRows * ButtonSize + Spacer * (NumButtonRows - 1)"

section \<open>Errors and outcomes\<close>

text \<open>
  Every error value the package creates itself is a constructor named after its message;
  \<open>UsbError\<close> stands for an error handed back by the USB library. A Go function that
  dereferences a nil pointer panics: \<open>Panic\<close> is that outcome, \<open>Done\<close> a normal return.
\<close>

datatype error =
    OnlyOneSerial
  | NoDeviceWithSerial string
  | NoOneDevices
  | InvalidKeyIndex
  | InvalidColorRange
  | UsbError string

datatype 'a outcome = Panic | Done 'a

section \<open>Images\<close>

text \<open>
  Go's \<open>image.Rectangle\<close> holds the points with \<open>Min.X \<le> x < Max.X\<close> and
  \<open>Min.Y \<le> y < Max.Y\<close>; \<open>Dx\<close> and \<open>Dy\<close> are its width and height. An
  \<open>image.Image\<close> is its bounds and its \<open>At\<close> method; \<open>RGBA()\<close> of the colour found
  there is four 32-bit values.
\<close>

record Rectangle =
  MinX :: int
  MinY :: int
  MaxX :: int
  MaxY :: int

definition Dx :: "Rectangle \<Rightarrow> int" where
  "Dx r = MaxX r - MinX r"

definition Dy :: "Rectangle \<Rightarrow> int" where
  "Dy r = MaxY r - MinY r"

definition Rect :: "int \<Rightarrow> int \<Rightarrow> int \<Rightarrow> int \<Rightarrow> Rectangle" where
  "Rect x0 y0 x1 y1 = \<lparr>MinX = x0, MinY = y0, MaxX = x1, MaxY = y1\<rparr>"

type_synonym rgba = "32 word \<times> 32 word \<times> 32 word \<times> 32 word"

record Image =
  Bounds :: Rectangle
  At :: "int \<Rightarrow> int \<Rightarrow> rgba"

text \<open>The resampling library behind \<open>resize\<close> is a parameter of the model.\<close>

type_synonym resizer = "Image \<Rightarrow> int \<Rightarrow> int \<Rightarrow> Image"

section \<open>The encoder inside FillImage\<close>

text \<open>
  \<open>pixel_bytes\<close> is the body of the inner loop: the three bytes appended for the pixel
  at column \<open>line\<close> of row \<open>row\<close>; \<open>byte(r)\<close> keeps the low eight bits.
\<close>

definition pixel_bytes :: "Image \<Rightarrow> int \<Rightarrow> int \<Rightarrow> byte list" where
  "pixel_bytes img line row =
     (case At img line row of (r, g, b, a) \<Rightarrow> [ucast r, ucast b, ucast g])"

text \<open>
  The inner loop \<open>for line := ButtonSize - 1; line >= 0; line--\<close>: the counter of the
  model is \<open>line + 1\<close>, so that the loop stops at 0.
\<close>

fun line_loop :: "Image \<Rightarrow> int \<Rightarrow> nat \<Rightarrow> byte list \<Rightarrow> byte list" where
  "line_loop img row 0 imgBuf = imgBuf"
| "line_loop img row (Suc line) imgBuf =
     line_loop img row line (imgBuf @ pixel_bytes img (int line) row)"

text \<open>The outer loop \<open>for row := 0; row < ButtonSize; row++\<close>.\<close>

function row_loop :: "Image \<Rightarrow> int \<Rightarrow> byte list \<Rightarrow> byte list" where
  "row_loop img row imgBuf =
     (if row < ButtonSize
      then row_loop img (row + 1) (line_loop img row (nat ButtonSize) imgBuf)
      else imgBuf)"
  by pat_completeness auto
termination
  by (relation "measure (\<lambda>(img, row, imgBuf). nat (ButtonSize - row))") auto

declare row_loop.simps [simp del]

definition encode_image :: "Image \<Rightarrow> byte list" where
  "encode_image img = row_loop img 0 []"

definition page1_of :: "byte list \<Rightarrow> byte list" where
  "page1_of imgBuf = take (numFirstMsgPixels * 3) imgBuf"

definition page2_of :: "byte list \<Rightarrow> byte list" where
  "page2_of imgBuf = drop (numFirstMsgPixels * 3) imgBuf"

text \<open>The rescaling step of FillImage: only the width of the bounds is compared.\<close>

definition rescale :: "resizer \<Rightarrow> Image \<Rightarrow> Image" where
  "rescale resize img =
     (if Dx (Bounds img) \<noteq> ButtonSize then resize img ButtonSize ButtonSize else img)"

section \<open>The two wire messages\<close>

definition msg1_prefix :: "int \<Rightarrow> byte list" where
  "msg1_prefix btnIndex =
     [0x02, 0x01, 0x01, 0x00, 0x00, word_of_int (btnIndex + 1), 0x00, 0x00, 0x00, 0x00,
      0x00, 0x00, 0x00, 0x00, 0x00, 0x00, 0x42, 0x4D, 0xF6, 0x3C, 0x00, 0x00, 0x00,
      0x00, 0x00, 0x00, 0x36, 0x00, 0x00, 0x00, 0x28, 0x00, 0x00, 0x00, 0x48, 0x00,
      0x00, 0x00, 0x48, 0x00, 0x00, 0x00, 0x01, 0x00, 0x18, 0x00, 0x00, 0x00, 0x00,
      0x00, 0xC0, 0x3C, 0x00, 0x00, 0xC4, 0x0E, 0x00, 0x00, 0xC4, 0x0E, 0x00, 0x00,
      0x00, 0x00, 0x00, 0x00, 0x00, 0x00, 0x00, 0x00, 0x00, 0x00]"

definition msg2_prefix :: "int \<Rightarrow> byte list" where
  "msg2_prefix btnIndex =
     [0x02, 0x01, 0x02, 0x00, 0x01, word_of_int (btnIndex + 1), 0x00, 0x00, 0x00, 0x00,
      0x00, 0x00, 0x00, 0x00, 0x00, 0x00, 0x00, 0x00]"

text \<open>
  The order of the pixels as the specification words it: pixel \<open>k\<close> of the buffer is
  the pixel of row \<open>k div 72\<close> at column \<open>71 - k mod 72\<close>, sent as red, blue, green.
\<close>

definition wire_pixel :: "Image \<Rightarrow> nat \<Rightarrow> byte list" where
  "wire_pixel img k =
     (case At img (71 - int (k mod 72)) (int (k div 72)) of
        (r, g, b, a) \<Rightarrow> [ucast r, ucast b, ucast g])"

definition row_bytes :: "Image \<Rightarrow> nat \<Rightarrow> byte list" where
  "row_bytes img r =
     concat (map (\<lambda>l. pixel_bytes img (int l) (int r)) (rev [0..<nat ButtonSize]))"

section \<open>The USB device\<close>

text \<open>
  The USB library is outside the package. What it answers is data of the model: a
  \<open>gousb_device\<close> is an opened device with the answers of its methods and its endpoint
  descriptors in the order in which Connect walks them (configurations and interfaces
  flattened; opening a configuration or an interface is taken to succeed); a
  \<open>usb_bus\<close> is the machine's USB side: the answer of the n-th \<open>OpenDevices\<close> call,
  the answer of the n-th transfer to the OUT endpoint, and the log of the transfers made.
\<close>

datatype direction = EndpointDirectionIn | EndpointDirectionOut

record endpoint_desc =
  Number :: nat
  Direction :: direction
  claim :: "error option"

record gousb_device =
  serial :: "error + string"
  auto_detach :: "error option"
  endpoints :: "endpoint_desc list"
  device_close :: "error option"

record usb_bus =
  open_devices :: "nat \<Rightarrow> error + gousb_device list"
  opens :: nat
  out_answer :: "nat \<Rightarrow> error option"
  out_log :: "byte list list"
  context_close :: "error option"

text \<open>
  The struct \<open>USBDevice\<close>. A nil pointer is \<open>None\<close>; the claimed interface is kept
  as a flag. The field \<open>bus\<close> is the world reached through the library's context.
\<close>

record USBDevice =
  device :: "gousb_device option"
  intf :: bool
  inEndpoint :: "nat option"
  outEndpoint :: "nat option"
  connected :: bool
  productID :: "16 word"
  vendorID :: "16 word"
  bus :: usb_bus

definition IsConnected :: "USBDevice \<Rightarrow> bool" where
  "IsConnected usbDevice = connected usbDevice"

text \<open>
  \<open>GetSerialNumber\<close> calls \<open>SerialNumber\<close> on the device handle, which reads the
  handle's descriptor: on a nil handle that is a nil pointer dereference.
\<close>

definition GetSerialNumber :: "USBDevice \<Rightarrow> (error + string) outcome" where
  "GetSerialNumber usbDevice =
     (case device usbDevice of None \<Rightarrow> Panic | Some dev \<Rightarrow> Done (serial dev))"

definition SetConnected :: "bool \<Rightarrow> USBDevice \<Rightarrow> USBDevice" where
  "SetConnected c usbDevice = usbDevice\<lparr>connected := c\<rparr>"

text \<open>
  \<open>write\<close> of the device (\<open>write_usb\<close> here) hands the bytes to the OUT endpoint and
  returns its answer (the count is dropped by every caller). The endpoint is a pointer:
  nil until Connect has found one.
\<close>

definition write_usb :: "byte list \<Rightarrow> USBDevice \<Rightarrow> (error option \<times> USBDevice) outcome" where
  "write_usb data usbDevice =
     (case outEndpoint usbDevice of
        None \<Rightarrow> Panic
      | Some ep \<Rightarrow>
          Done (out_answer (bus usbDevice) (length (out_log (bus usbDevice))),
                usbDevice\<lparr>bus := (bus usbDevice)\<lparr>out_log := out_log (bus usbDevice) @ [data]\<rparr>\<rparr>))"

text \<open>
  \<open>read\<close> takes the answer of the IN endpoint for this transfer: an error, or the
  bytes received, which are copied into the front of the buffer \<open>data\<close>.
\<close>

definition read ::
  "byte list \<Rightarrow> error + byte list \<Rightarrow> USBDevice \<Rightarrow> (byte list \<times> error option \<times> USBDevice) outcome"
where
  "read data answer usbDevice =
     (case inEndpoint usbDevice of
        None \<Rightarrow> Panic
      | Some ep \<Rightarrow>
          (case answer of
             Inl err \<Rightarrow> Done (data, Some err, SetConnected False usbDevice)
           | Inr received \<Rightarrow>
               Done (take (length data) received @ drop (length received) data, None, usbDevice)))"

definition NewUSBDevice :: "16 word \<Rightarrow> 16 word \<Rightarrow> usb_bus \<Rightarrow> USBDevice" where
  "NewUSBDevice pid vid b =
     \<lparr>device = None, intf = False, inEndpoint = None, outEndpoint = None,
      connected = False, productID = pid, vendorID = vid, bus = b\<rparr>"

text \<open>The walk of Connect over the endpoints of the device.\<close>

fun walk_endpoints :: "endpoint_desc list \<Rightarrow> USBDevice \<Rightarrow> error option \<times> USBDevice" where
  "walk_endpoints [] usbDevice = (None, usbDevice)"
| "walk_endpoints (e # es) usbDevice =
     (case Direction e of
        EndpointDirectionIn \<Rightarrow>
          (case claim e of
             Some err \<Rightarrow> (Some err, usbDevice)
           | None \<Rightarrow> walk_endpoints es (usbDevice\<lparr>intf := True, inEndpoint := Some (Number e)\<rparr>))
      | EndpointDirectionOut \<Rightarrow>
          (case claim e of
             Some err \<Rightarrow> (Some err, usbDevice)
           | None \<Rightarrow> walk_endpoints es (usbDevice\<lparr>outEndpoint := Some (Number e)\<rparr>)))"

definition Connect :: "USBDevice \<Rightarrow> error option \<times> USBDevice" where
  "Connect usbDevice =
     (let b = bus usbDevice;
          d0 = usbDevice\<lparr>bus := b\<lparr>opens := Suc (opens b)\<rparr>\<rparr>
      in case open_devices b (opens b) of
           Inl err \<Rightarrow> (Some err, d0)
         | Inr devices \<Rightarrow>
             (case devices of
                [] \<Rightarrow> (Some NoOneDevices, d0)
              | dev # others \<Rightarrow>
                  (let d1 = d0\<lparr>device := Some dev\<rparr>
                   in case auto_detach dev of
                        Some err \<Rightarrow> (Some err, d1)
                      | None \<Rightarrow>
                          (case walk_endpoints (endpoints dev) d1 of
                             (Some err, d2) \<Rightarrow> (Some err, d2)
                           | (None, d2) \<Rightarrow> (None, SetConnected True d2)))))"

text \<open>
  \<open>Close\<close> of the device: closing the interface through a nil pointer panics; the
  context and the device handle exist once Connect has succeeded.
\<close>

definition USBDevice_Close :: "USBDevice \<Rightarrow> error option outcome" where
  "USBDevice_Close usbDevice =
     (if IsConnected usbDevice then
        (if \<not> intf usbDevice then Panic
         else case context_close (bus usbDevice) of
                Some err \<Rightarrow> Done (Some err)
              | None \<Rightarrow>
                  (case device usbDevice of
                     None \<Rightarrow> Panic
                   | Some dev \<Rightarrow> Done (device_close dev)))
      else Done None)"

section \<open>The Stream Deck\<close>

datatype BtnState = BtnPressed | BtnReleased

text \<open>
  The struct \<open>StreamDeck\<close>. A callback is a flag (registered or nil); what the
  callbacks are asked to do is logged: \<open>dispatched\<close> lists the calls
  \<open>go sd.btnEventCb(i, btnState)\<close> in the order in which the loop starts them,
  \<open>connect_calls\<close> counts the calls of \<open>onConnectCallback\<close>. The logger and the
  mutex have no part in the results and are left out.
\<close>

record StreamDeck =
  sd_device :: USBDevice
  btnEventCb :: bool
  btnState :: "BtnState list"
  onConnectCallback :: bool
  dispatched :: "(nat \<times> BtnState) list"
  connect_calls :: nat

definition VendorID :: "16 word" where
  "VendorID = 0x0fd9"

definition ProductID :: "16 word" where
  "ProductID = 0x0060"

definition checkValidKeyIndex :: "int \<Rightarrow> error option" where
  "checkValidKeyIndex keyIndex =
     (if keyIndex < 0 \<or> keyIndex > 15 then Some InvalidKeyIndex else None)"

definition checkRGB :: "int \<Rightarrow> error option" where
  "checkRGB v = (if v < 0 \<or> v > 255 then Some InvalidColorRange else None)"

definition intToButtonState :: "int \<Rightarrow> BtnState" where
  "intToButtonState i = (if i = 0 then BtnReleased else BtnPressed)"

definition writeMsg1 :: "int \<Rightarrow> byte list \<Rightarrow> StreamDeck \<Rightarrow> (error option \<times> StreamDeck) outcome" where
  "writeMsg1 btnIndex c sd =
     (case write_usb (msg1_prefix btnIndex @ c) (sd_device sd) of
        Panic \<Rightarrow> Panic
      | Done (err, d) \<Rightarrow> Done (err, sd\<lparr>sd_device := d\<rparr>))"

definition writeMsg2 :: "int \<Rightarrow> byte list \<Rightarrow> StreamDeck \<Rightarrow> (error option \<times> StreamDeck) outcome" where
  "writeMsg2 btnIndex c sd =
     (case write_usb (msg2_prefix btnIndex @ c) (sd_device sd) of
        Panic \<Rightarrow> Panic
      | Done (err, d) \<Rightarrow> Done (err, sd\<lparr>sd_device := d\<rparr>))"

definition FillImage ::
  "resizer \<Rightarrow> int \<Rightarrow> Image \<Rightarrow> StreamDeck \<Rightarrow> (error option \<times> StreamDeck) outcome"
where
  "FillImage resize btnIndex img sd =
     (case checkValidKeyIndex btnIndex of
        Some err \<Rightarrow> Done (Some err, sd)
      | None \<Rightarrow>
          (let imgBuf = encode_image (rescale resize img);
               page1 = page1_of imgBuf;
               page2 = page2_of imgBuf
           in case writeMsg1 btnIndex page1 sd of
                Panic \<Rightarrow> Panic
              | Done (Some err, sd1) \<Rightarrow> Done (Some err, sd1)
              | Done (None, sd1) \<Rightarrow> writeMsg2 btnIndex page2 sd1))"

text \<open>
  The image FillColor draws: a 72 by 72 RGBA image filled with the colour
  \<open>color.RGBA{uint8(r), uint8(g), uint8(b), 0}\<close>, whose \<open>RGBA()\<close> repeats each
  channel byte in the upper byte of a 16-bit value; outside its bounds an RGBA image
  answers the zero colour.
\<close>

definition channel16 :: "int \<Rightarrow> 32 word" where
  "channel16 v = ucast (word_of_int v :: byte) * 0x101"

definition solid_image :: "int \<Rightarrow> int \<Rightarrow> int \<Rightarrow> Image" where
  "solid_image r g b =
     \<lparr>Bounds = Rect 0 0 ButtonSize ButtonSize,
      At = (\<lambda>x y. if 0 \<le> x \<and> x < ButtonSize \<and> 0 \<le> y \<and> y < ButtonSize
                   then (channel16 r, channel16 g, channel16 b, 0)
                   else (0, 0, 0, 0))\<rparr>"

definition FillColor ::
  "resizer \<Rightarrow> int \<Rightarrow> int \<Rightarrow> int \<Rightarrow> int \<Rightarrow> StreamDeck \<Rightarrow> (error option \<times> StreamDeck) outcome"
where
  "FillColor resize btnIndex r g b sd =
     (case checkRGB r of
        Some err \<Rightarrow> Done (Some err, sd)
      | None \<Rightarrow>
          (case checkRGB g of
             Some err \<Rightarrow> Done (Some err, sd)
           | None \<Rightarrow>
               (case checkRGB b of
                  Some err \<Rightarrow> Done (Some err, sd)
                | None \<Rightarrow> FillImage resize btnIndex (solid_image r g b) sd)))"

definition ClearBtn :: "resizer \<Rightarrow> int \<Rightarrow> StreamDeck \<Rightarrow> (error option \<times> StreamDeck) outcome" where
  "ClearBtn resize btnIndex sd =
     (case checkValidKeyIndex btnIndex of
        Some err \<Rightarrow> Done (Some err, sd)
      | None \<Rightarrow> FillColor resize btnIndex 0 0 0 sd)"

text \<open>
  The loop of ClearAllBtns, \<open>for i := 14; i >= 0; i--\<close>: the counter of the model is
  \<open>i + 1\<close>. The error ClearBtn returns is dropped; a panic is not a return.
\<close>

fun clear_loop :: "resizer \<Rightarrow> nat \<Rightarrow> StreamDeck \<Rightarrow> StreamDeck outcome" where
  "clear_loop resize 0 sd = Done sd"
| "clear_loop resize (Suc i) sd =
     (case ClearBtn resize (int i) sd of
        Panic \<Rightarrow> Panic
      | Done (err, sd1) \<Rightarrow> clear_loop resize i sd1)"

definition ClearAllBtns :: "resizer \<Rightarrow> StreamDeck \<Rightarrow> StreamDeck outcome" where
  "ClearAllBtns resize sd = clear_loop resize 15 sd"

definition Close :: "resizer \<Rightarrow> StreamDeck \<Rightarrow> (error option \<times> StreamDeck) outcome" where
  "Close resize sd =
     (case ClearAllBtns resize sd of
        Panic \<Rightarrow> Panic
      | Done sd1 \<Rightarrow>
          (case USBDevice_Close (sd_device sd1) of
             Panic \<Rightarrow> Panic
           | Done err \<Rightarrow> Done (err, sd1)))"

text \<open>
  The constructor. \<open>check_serial\<close> is its block \<open>if len(serial) == 1\<close>, run on the
  device NewUSBDevice has just made.
\<close>

definition check_serial :: "string list \<Rightarrow> USBDevice \<Rightarrow> error option outcome" where
  "check_serial serials usbDevice =
     (if length serials = 1 then
        (case GetSerialNumber usbDevice of
           Panic \<Rightarrow> Panic
         | Done (Inl err) \<Rightarrow> Done (Some err)
         | Done (Inr deviceSerialNumber) \<Rightarrow>
             (if deviceSerialNumber \<noteq> hd serials
              then Done (Some (NoDeviceWithSerial (hd serials)))
              else Done None))
      else Done None)"

text \<open>The struct the constructor builds, every button state set to released.\<close>

definition new_deck :: "USBDevice \<Rightarrow> StreamDeck" where
  "new_deck d =
     \<lparr>sd_device = d, btnEventCb = False,
      btnState = replicate NumButtons BtnReleased,
      onConnectCallback = False, dispatched = [], connect_calls = 0\<rparr>"

definition NewStreamDeck :: "resizer \<Rightarrow> usb_bus \<Rightarrow> string list \<Rightarrow> (error + StreamDeck) outcome" where
  "NewStreamDeck resize b serials =
     (if length serials > 1 then Done (Inl OnlyOneSerial)
      else
        (let usbDevice = NewUSBDevice ProductID VendorID b
         in case check_serial serials usbDevice of
              Panic \<Rightarrow> Panic
            | Done (Some err) \<Rightarrow> Done (Inl err)
            | Done None \<Rightarrow>
                (case Connect usbDevice of
                   (Some err, d) \<Rightarrow> Done (Inl err)
                 | (None, d) \<Rightarrow>
                     (case ClearAllBtns resize (new_deck d) of
                        Panic \<Rightarrow> Panic
                      | Done sd \<Rightarrow> Done (Inr sd)))))"

section \<open>The event loop\<close>

text \<open>
  The loop over the bytes of one report, \<open>for i, b := range data\<close>; indexing the
  button states out of range panics.
\<close>

fun btn_loop :: "nat \<Rightarrow> byte list \<Rightarrow> StreamDeck \<Rightarrow> StreamDeck outcome" where
  "btn_loop i [] sd = Done sd"
| "btn_loop i (b # data) sd =
     (if i < length (btnState sd) then
        (if btnState sd ! i \<noteq> intToButtonState (uint b) then
           (let sd1 = sd\<lparr>btnState := (btnState sd)[i := intToButtonState (uint b)]\<rparr>
            in if btnEventCb sd1
               then btn_loop (Suc i) data
                      (sd1\<lparr>dispatched := dispatched sd1 @ [(i, btnState sd1 ! i)]\<rparr>)
               else btn_loop (Suc i) data sd1)
         else btn_loop (Suc i) data sd)
      else Panic)"

text \<open>
  The slice \<open>data[1 : len(data)-1]\<close>; it panics on a buffer of fewer than two
  bytes, where the upper bound falls below the lower one.
\<close>

definition strip_markers :: "byte list \<Rightarrow> byte list outcome" where
  "strip_markers data =
     (if length data < 2 then Panic else Done (drop 1 (take (length data - 1) data)))"

definition dispatch_report :: "byte list \<Rightarrow> StreamDeck \<Rightarrow> StreamDeck outcome" where
  "dispatch_report data sd =
     (case strip_markers data of
        Panic \<Rightarrow> Panic
      | Done states \<Rightarrow> btn_loop 0 states sd)"

text \<open>The head of the reader's loop: connect when the link is not connected.\<close>

definition reconnect :: "StreamDeck \<Rightarrow> error option \<times> StreamDeck" where
  "reconnect sd =
     (if \<not> IsConnected (sd_device sd) then
        (case Connect (sd_device sd) of
           (Some err, d) \<Rightarrow> (Some err, sd\<lparr>sd_device := d\<rparr>)
         | (None, d) \<Rightarrow>
             (if onConnectCallback sd
              then (None, sd\<lparr>sd_device := d, connect_calls := Suc (connect_calls sd)\<rparr>)
              else (None, sd\<lparr>sd_device := d\<rparr>)))
      else (None, sd))"

text \<open>
  \<open>Serve\<close>. The reader goroutine and the receiving loop meet on unbuffered channels,
  so one round of the model is one round of the reader followed by the receiver's
  \<open>select\<close>. \<open>reads\<close> are the answers of the IN endpoint to the successive reads;
  when they are used up the device stays silent and the read blocks. \<open>stop\<close> tells
  when the stop channel fires: never (\<open>None\<close>), or after the receiver has taken that
  many reports. A call ends by returning nil or an error, by a panic, or not at all.
\<close>

datatype serve_end = Panicked | Blocked | Returned "error option"

fun Serve :: "nat option \<Rightarrow> (error + byte list) list \<Rightarrow> StreamDeck \<Rightarrow> serve_end \<times> StreamDeck" where
  "Serve stop reads sd =
     (if stop = Some 0 then (Returned None, sd)
      else case reconnect sd of
             (Some err, sd1) \<Rightarrow> (Returned (Some err), sd1)
           | (None, sd1) \<Rightarrow>
               (case reads of
                  [] \<Rightarrow>
                    (if inEndpoint (sd_device sd1) = None then (Panicked, sd1)
                     else if stop = None then (Blocked, sd1)
                     else (Returned None, sd1))
                | answer # rest \<Rightarrow>
                    (case read (replicate OutEndpointBufferSize 0) answer (sd_device sd1) of
                       Panic \<Rightarrow> (Panicked, sd1)
                     | Done (data, Some err, d) \<Rightarrow> (Returned (Some err), sd1\<lparr>sd_device := d\<rparr>)
                     | Done (data, None, d) \<Rightarrow>
                         (case dispatch_report data (sd1\<lparr>sd_device := d\<rparr>) of
                            Panic \<Rightarrow> (Panicked, sd1\<lparr>sd_device := d\<rparr>)
                          | Done sd2 \<Rightarrow> Serve (map_option (\<lambda>n. n - 1) stop) rest sd2))))"

declare Serve.simps [simp del]

section \<open>The tiles of FillPanel\<close>

text \<open>The rectangle FillPanel cuts out for the button at \<open>row\<close> and \<open>col\<close>.\<close>

definition button_rect :: "int \<Rightarrow> int \<Rightarrow> Rectangle" where
  "button_rect row col =
     \<lparr>MinX = PanelWidth - ButtonSize - col * ButtonSize - col * Spacer,
      MinY = row * ButtonSize + row * Spacer,
      MaxX = PanelWidth - 1 - col * ButtonSize - col * Spacer,
      MaxY = ButtonSize - 1 + row * ButtonSize + row * Spacer\<rparr>"

text \<open>
  The two loops of FillPanel, listing the button index \<open>counter\<close> with the rectangle
  cut out for it, in the order of the calls of FillImage.
\<close>

definition panel_tiles :: "(int \<times> Rectangle) list" where
  "panel_tiles =
     concat (map (\<lambda>row. map (\<lambda>col. (row * NumButtonColumns + col, button_rect row col))
                            [0..NumButtonColumns - 1])
                 [0..NumButtonRows - 1])"

section \<open>Auxiliary notions and sample data\<close>

text \<open>
  \<open>logged ms sd\<close> is the deck \<open>sd\<close> after the messages \<open>ms\<close> have been handed
  to the OUT endpoint; \<open>next_answer sd\<close> is what the endpoint answers to the next
  transfer. The sample device is a Stream Deck with one IN and one OUT endpoint whose
  transfers succeed; the sample deck is connected to it.
\<close>

definition logged :: "byte list list \<Rightarrow> StreamDeck \<Rightarrow> StreamDeck" where
  "logged ms sd =
     sd\<lparr>sd_device := (sd_device sd)\<lparr>bus := (bus (sd_device sd))
          \<lparr>out_log := out_log (bus (sd_device sd)) @ ms\<rparr>\<rparr>\<rparr>"

definition next_answer :: "StreamDeck \<Rightarrow> error option" where
  "next_answer sd = out_answer (bus (sd_device sd)) (length (out_log (bus (sd_device sd))))"

definition sample_device :: gousb_device where
  "sample_device =
     \<lparr>serial = Inr ''AL12H1A00001'', auto_detach = None,
      endpoints = [\<lparr>Number = 1, Direction = EndpointDirectionIn, claim = None\<rparr>,
                   \<lparr>Number = 2, Direction = EndpointDirectionOut, claim = None\<rparr>],
      device_close = None\<rparr>"

definition sample_bus :: usb_bus where
  "sample_bus =
     \<lparr>open_devices = (\<lambda>n. Inr [sample_device]), opens = 1,
      out_answer = (\<lambda>n. None), out_log = [], context_close = None\<rparr>"

definition sample_usb :: USBDevice where
  "sample_usb =
     \<lparr>device = Some sample_device, intf = True, inEndpoint = Some 1, outEndpoint = Some 2,
      connected = True, productID = ProductID, vendorID = VendorID, bus = sample_bus\<rparr>"

definition sample_deck :: StreamDeck where
  "sample_deck =
     \<lparr>sd_device = sample_usb, btnEventCb = True,
      btnState = replicate NumButtons BtnReleased,
      onConnectCallback = False, dispatched = [], connect_calls = 0\<rparr>"

definition sample_resize :: resizer where
  "sample_resize img w h =
     \<lparr>Bounds = Rect 0 0 w h,
      At = (\<lambda>x y. At img (MinX (Bounds img) + x * Dx (Bounds img) div w)
                          (MinY (Bounds img) + y * Dy (Bounds img) div h))\<rparr>"

definition tall_image :: Image where
  "tall_image = \<lparr>Bounds = Rect 0 0 72 100, At = (\<lambda>x y. (0, 0, 0, 0))\<rparr>"

definition unplugged_usb :: USBDevice where
  "unplugged_usb = SetConnected False sample_usb"

definition is_page1 :: "byte list \<Rightarrow> bool" where
  "is_page1 m = (m ! 2 = 1)"

definition stalled_bus :: usb_bus where
  "stalled_bus = sample_bus\<lparr>opens := 0, out_answer := (\<lambda>n. Some (UsbError ''stall''))\<rparr>"

definition stalled_usb :: USBDevice where
  "stalled_usb = sample_usb\<lparr>bus := stalled_bus\<lparr>opens := 1\<rparr>\<rparr>"

definition stalled_deck :: StreamDeck where
  "stalled_deck = sample_deck\<lparr>sd_device := stalled_usb\<rparr>"

definition black_page1 :: "byte list" where
  "black_page1 = page1_of (encode_image (solid_image 0 0 0))"

text \<open>
  The event loop as the specification words it. \<open>read_buffer\<close> is the 17-byte buffer
  after a read that received the given bytes; \<open>report_states\<close> drops the first and the
  last byte of a report and reads 0 as released, anything else as pressed;
  \<open>transitions\<close> walks the cached and the reported states in ascending index order.
\<close>

definition read_buffer :: "byte list \<Rightarrow> byte list" where
  "read_buffer received =
     take OutEndpointBufferSize received @
     drop (length received) (replicate OutEndpointBufferSize 0)"

definition report_states :: "byte list \<Rightarrow> BtnState list" where
  "report_states data =
     map (\<lambda>b. if b = 0 then BtnReleased else BtnPressed) (butlast (tl data))"

fun transitions :: "nat \<Rightarrow> BtnState list \<Rightarrow> BtnState list \<Rightarrow> (nat \<times> BtnState) list" where
  "transitions i (old # olds) (new # news) =
     (if old \<noteq> new then [(i, new)] else []) @ transitions (Suc i) olds news"
| "transitions i olds news = []"

definition zero_report :: "byte list" where
  "zero_report = 0xFF # replicate 15 0 @ [0xFF]"

definition lost_bus :: usb_bus where
  "lost_bus = sample_bus\<lparr>open_devices := (\<lambda>n. Inl (UsbError ''libusb: no device''))\<rparr>"

definition lost_deck :: StreamDeck where
  "lost_deck = sample_deck\<lparr>sd_device := sample_usb\<lparr>bus := lost_bus\<rparr>\<rparr>"

definition translate :: "byte list \<Rightarrow> BtnState list" where
  "translate data = map (\<lambda>b. intToButtonState (uint b)) data"

section \<open>Properties of the encoder\<close>

lemma length_pixel_bytes: "length (pixel_bytes img line row) = 3"
  by (simp add: pixel_bytes_def split: prod.split)

lemma line_loop_closed:
  "line_loop img row n imgBuf =
     imgBuf @ concat (map (\<lambda>l. pixel_bytes img (int l) row) (rev [0..<n]))"
  by (induction n arbitrary: imgBuf) simp_all

lemma row_loop_closed:
  "0 \<le> row \<Longrightarrow> row \<le> ButtonSize \<Longrightarrow>
   row_loop img row imgBuf = imgBuf @ concat (map (row_bytes img) [nat row..<nat ButtonSize])"
proof (induction img row imgBuf rule: row_loop.induct)
  case (1 img row imgBuf)
  show ?case
  proof (cases "row < ButtonSize")
    case True
    have up: "[nat row..<nat ButtonSize] = nat row # [nat (row + 1)..<nat ButtonSize]"
      using True "1.prems" by (simp add: upt_conv_Cons nat_add_distrib)
    have here: "line_loop img row (nat ButtonSize) imgBuf = imgBuf @ row_bytes img (nat row)"
      using "1.prems" by (simp add: line_loop_closed row_bytes_def)
    have "row_loop img row imgBuf = row_loop img (row + 1) (line_loop img row (nat ButtonSize) imgBuf)"
      using True by (subst row_loop.simps) simp
    also have "\<dots> = line_loop img row (nat ButtonSize) imgBuf @
        concat (map (row_bytes img) [nat (row + 1)..<nat ButtonSize])"
      using "1.IH" [OF True] True "1.prems" by simp
    finally show ?thesis
      by (simp only: here up list.map concat.simps append_assoc)
  next
    case False
    then have "row = ButtonSize" using "1.prems" by simp
    then show ?thesis by (subst row_loop.simps) simp
  qed
qed

lemma concat_grid:
  "concat (map (\<lambda>i. concat (map (\<lambda>j. g i j) [0..<n])) [0..<m]) =
   concat (map (\<lambda>k. g (k div n) (k mod n)) [0..<m * n])"
proof (induction m)
  case 0
  then show ?case by simp
next
  case (Suc m)
  have split: "[0..<Suc m * n] = [0..<m * n] @ [m * n..<m * n + n]"
    using upt_add_eq_append [of 0 "m * n" n] by (simp add: add.commute)
  have "map (\<lambda>k. g (k div n) (k mod n)) [m * n..<m * n + n] = map (\<lambda>j. g m j) [0..<n]"
    by (rule nth_equalityI) simp_all
  then show ?case using Suc by (simp only: split map_append upt_Suc_append concat_append) simp
qed

lemma rev_upt_mirror: "rev [0..<n] = map (\<lambda>j. n - 1 - j) [0..<n]"
  by (rule nth_equalityI) (simp_all add: rev_nth)

lemma row_bytes_mirror:
  "row_bytes img r = concat (map (\<lambda>j. pixel_bytes img (int (nat ButtonSize - 1 - j)) (int r)) [0..<nat ButtonSize])"
  by (simp only: row_bytes_def rev_upt_mirror map_map o_def)

lemma encode_image_grid:
  "encode_image img =
     concat (map (\<lambda>k. pixel_bytes img (int (nat ButtonSize - 1 - k mod nat ButtonSize)) (int (k div nat ButtonSize)))
                 [0..<nat ButtonSize * nat ButtonSize])"
proof -
  have rows: "row_bytes img =
      (\<lambda>r. concat (map (\<lambda>j. pixel_bytes img (int (nat ButtonSize - 1 - j)) (int r)) [0..<nat ButtonSize]))"
    by (rule ext) (rule row_bytes_mirror)
  have "encode_image img = concat (map (row_bytes img) [0..<nat ButtonSize])"
    unfolding encode_image_def by (subst row_loop_closed) (simp_all add: ButtonSize_def)
  also have "\<dots> = concat (map (\<lambda>k. pixel_bytes img (int (nat ButtonSize - 1 - k mod nat ButtonSize))
                                      (int (k div nat ButtonSize)))
                                [0..<nat ButtonSize * nat ButtonSize])"
    unfolding rows by (rule concat_grid)
  finally show ?thesis .
qed

lemma wire_pixel_eq:
  "pixel_bytes img (int (nat ButtonSize - 1 - k mod nat ButtonSize)) (int (k div nat ButtonSize)) = wire_pixel img k"
proof -
  have "k mod 72 < 72" by simp
  then have "int (71 - k mod 72) = 71 - int (k mod 72)" by linarith
  then show ?thesis
    by (simp add: wire_pixel_def pixel_bytes_def ButtonSize_def)
qed

lemma encode_image_wire: "encode_image img = concat (map (wire_pixel img) [0..<5184])"
  by (simp only: encode_image_grid wire_pixel_eq) (simp add: ButtonSize_def)

lemma length_wire_pixel: "length (wire_pixel img k) = 3"
  by (simp add: wire_pixel_def split: prod.split)

lemma take_concat_fixed:
  "(\<And>x. length (h x) = c) \<Longrightarrow> take (n * c) (concat (map h xs)) = concat (map h (take n xs))"
proof (induction xs arbitrary: n)
  case Nil
  then show ?case by simp
next
  case (Cons x xs)
  show ?case
  proof (cases n)
    case 0
    then show ?thesis by simp
  next
    case (Suc m)
    then show ?thesis using Cons by simp
  qed
qed

lemma drop_concat_fixed:
  "(\<And>x. length (h x) = c) \<Longrightarrow> drop (n * c) (concat (map h xs)) = concat (map h (drop n xs))"
proof (induction xs arbitrary: n)
  case Nil
  then show ?case by simp
next
  case (Cons x xs)
  show ?case
  proof (cases n)
    case 0
    then show ?thesis by simp
  next
    case (Suc m)
    then show ?thesis using Cons by simp
  qed
qed

lemma length_concat_fixed:
  "(\<And>x. length (h x) = c) \<Longrightarrow> length (concat (map h xs)) = length xs * c"
  by (induction xs) simp_all

lemma page1_wire: "page1_of (encode_image img) = concat (map (wire_pixel img) [0..<2583])"
  unfolding page1_of_def encode_image_wire numFirstMsgPixels_def
  by (subst take_concat_fixed [where c = 3]) (simp_all add: length_wire_pixel take_upt)

lemma page2_wire: "page2_of (encode_image img) = concat (map (wire_pixel img) [2583..<5184])"
  unfolding page2_of_def encode_image_wire numFirstMsgPixels_def
  by (subst drop_concat_fixed [where c = 3]) (simp_all add: length_wire_pixel drop_upt)

lemma length_page1: "length (page1_of (encode_image img)) = 7749"
  unfolding page1_wire by (subst length_concat_fixed [where c = 3]) (simp_all add: length_wire_pixel)

lemma length_page2: "length (page2_of (encode_image img)) = 7803"
  unfolding page2_wire by (subst length_concat_fixed [where c = 3]) (simp_all add: length_wire_pixel)

text \<open>
  Claim C2. The encoder of FillImage walks the rows from the top and each row from the
  right: pixel \<open>k\<close> of the buffer is the pixel of row \<open>k div 72\<close> at column
  \<open>71 - k mod 72\<close>, sent as the three bytes red, blue, green. The buffer holds 5184
  pixels; its first 2583 pixels (7749 bytes) are the payload of page 1 and the pixels
  from 2583 up to 5184 are the payload of page 2.
\<close>

theorem FillImage_pixel_order:
  "encode_image img = concat (map (wire_pixel img) [0..<5184]) \<and>
   page1_of (encode_image img) = concat (map (wire_pixel img) [0..<2583]) \<and>
   length (page1_of (encode_image img)) = 7749 \<and>
   page2_of (encode_image img) = concat (map (wire_pixel img) [2583..<5184])"
  using encode_image_wire [of img] page1_wire [of img] length_page1 [of img] page2_wire [of img]
  by (intro conjI)

section \<open>Writing a button\<close>

lemma sample_usb_Connect:
  "Connect (NewUSBDevice ProductID VendorID (sample_bus\<lparr>opens := 0\<rparr>)) = (None, sample_usb)"
  by (simp add: Connect_def NewUSBDevice_def sample_bus_def sample_device_def sample_usb_def
      SetConnected_def Let_def)

lemma logged_Nil: "logged [] sd = sd"
  by (simp add: logged_def)

lemma logged_logged: "logged ms (logged ns sd) = logged (ns @ ms) sd"
  by (simp add: logged_def)

lemma outEndpoint_logged: "outEndpoint (sd_device (logged ms sd)) = outEndpoint (sd_device sd)"
  by (simp add: logged_def)

lemma out_answer_logged: "out_answer (bus (sd_device (logged ms sd))) = out_answer (bus (sd_device sd))"
  by (simp add: logged_def)

lemma out_log_logged: "out_log (bus (sd_device (logged ms sd))) = out_log (bus (sd_device sd)) @ ms"
  by (simp add: logged_def)

lemma writeMsg1_logged:
  "outEndpoint (sd_device sd) = Some ep \<Longrightarrow>
   writeMsg1 i c sd = Done (next_answer sd, logged [msg1_prefix i @ c] sd)"
  by (simp add: writeMsg1_def write_usb_def next_answer_def logged_def)

lemma writeMsg2_logged:
  "outEndpoint (sd_device sd) = Some ep \<Longrightarrow>
   writeMsg2 i c sd = Done (next_answer sd, logged [msg2_prefix i @ c] sd)"
  by (simp add: writeMsg2_def write_usb_def next_answer_def logged_def)

lemma FillImage_logged:
  assumes "checkValidKeyIndex i = None" and "outEndpoint (sd_device sd) = Some ep"
  shows "FillImage resize i img sd =
     (if next_answer sd = None
      then Done (next_answer (logged [msg1_prefix i @ page1_of (encode_image (rescale resize img))] sd),
                 logged [msg1_prefix i @ page1_of (encode_image (rescale resize img)),
                         msg2_prefix i @ page2_of (encode_image (rescale resize img))] sd)
      else Done (next_answer sd, logged [msg1_prefix i @ page1_of (encode_image (rescale resize img))] sd))"
proof (cases "next_answer sd")
  case None
  then show ?thesis
    using assms
    by (simp add: FillImage_def Let_def writeMsg1_logged [OF assms(2)]
        writeMsg2_logged [of _ ep] outEndpoint_logged logged_logged)
next
  case (Some err)
  then show ?thesis
    using assms by (simp add: FillImage_def Let_def writeMsg1_logged [OF assms(2)])
qed

lemma FillImage_invalid:
  "checkValidKeyIndex i = Some err \<Longrightarrow> FillImage resize i img sd = Done (Some err, sd)"
  by (simp add: FillImage_def)

lemma length_msg1_prefix: "length (msg1_prefix i) = 72"
  by (simp add: msg1_prefix_def)

lemma length_msg2_prefix: "length (msg2_prefix i) = 18"
  by (simp add: msg2_prefix_def)

lemma msg1_prefix_index: "msg1_prefix i = (msg1_prefix 0)[5 := word_of_int (i + 1)]"
  by (simp add: msg1_prefix_def)

lemma msg2_prefix_index: "msg2_prefix i = (msg2_prefix 0)[5 := word_of_int (i + 1)]"
  by (simp add: msg2_prefix_def)

lemma index_byte: "0 \<le> i \<Longrightarrow> i \<le> 14 \<Longrightarrow> uint (word_of_int (i + 1) :: byte) = i + 1"
  unfolding uint_word_of_int by simp

lemma sample_deck_facts:
  "outEndpoint (sd_device sample_deck) = Some 2" "next_answer sample_deck = None"
  "next_answer (logged ms sample_deck) = None"
  by (simp_all add: sample_deck_def sample_usb_def sample_bus_def next_answer_def logged_def)

text \<open>
  Claim C4. The claim asks that every index outside 0..14, index 15 among them, is
  refused with the invalid-index error before any write. \<open>checkValidKeyIndex\<close>
  compares with 15 and lets index 15 pass: FillImage and FillColor then write both
  messages for it, with the index byte 16.
\<close>

theorem checkValidKeyIndex_accepts_15:
  "checkValidKeyIndex 15 = None \<and>
   FillImage resize 15 img sample_deck =
     Done (None, logged [msg1_prefix 15 @ page1_of (encode_image (rescale resize img)),
                         msg2_prefix 15 @ page2_of (encode_image (rescale resize img))] sample_deck) \<and>
   FillColor resize 15 0 0 0 sample_deck =
     Done (None, logged [msg1_prefix 15 @ page1_of (encode_image (rescale resize (solid_image 0 0 0))),
                         msg2_prefix 15 @ page2_of (encode_image (rescale resize (solid_image 0 0 0)))] sample_deck)"
proof -
  have v: "checkValidKeyIndex 15 = None" by (simp add: checkValidKeyIndex_def)
  show ?thesis
    by (simp add: v FillColor_def checkRGB_def FillImage_logged [OF v sample_deck_facts(1)] sample_deck_facts)
qed

text \<open>
  Claim C7. The claim asks that the constructor returns a result for every serial
  filter. With one serial number the constructor asks the device it has just made, and
  not yet connected, for its serial number: the handle is nil and the call panics,
  whatever the bus holds.
\<close>

theorem NewStreamDeck_serial_panics: "NewStreamDeck resize b [s] = Panic"
  by (simp add: NewStreamDeck_def check_serial_def GetSerialNumber_def NewUSBDevice_def Let_def)

text \<open>
  Claim C8. The claim asks that an image that is not 72 by 72 is resized before the
  encoding. FillImage compares the width only: an image 72 wide and 100 high is not
  resized, and what is written is the encoding of that image itself.
\<close>

theorem FillImage_keeps_tall_image:
  "Dx (Bounds tall_image) = ButtonSize \<and> Dy (Bounds tall_image) = 100 \<and>
   rescale resize tall_image = tall_image \<and>
   FillImage resize 0 tall_image sample_deck =
     Done (None, logged [msg1_prefix 0 @ page1_of (encode_image tall_image),
                         msg2_prefix 0 @ page2_of (encode_image tall_image)] sample_deck)"
proof -
  have v: "checkValidKeyIndex 0 = None" by (simp add: checkValidKeyIndex_def)
  have r: "rescale resize tall_image = tall_image"
    by (simp add: rescale_def tall_image_def Dx_def Rect_def ButtonSize_def)
  show ?thesis
    by (simp add: r FillImage_logged [OF v sample_deck_facts(1)] sample_deck_facts)
       (simp add: tall_image_def Dx_def Dy_def Rect_def ButtonSize_def)
qed

section \<open>The tiles of the panel\<close>

lemma button_rect_simps:
  "MinX (button_rect row col) = 364 - 91 * col" "MaxX (button_rect row col) = 435 - 91 * col"
  "MinY (button_rect row col) = 91 * row" "MaxY (button_rect row col) = 71 + 91 * row"
  by (simp_all add: button_rect_def PanelWidth_def ButtonSize_def NumButtonColumns_def Spacer_def)

text \<open>
  Claim C5, as stated, fails: the panel extent the grid gives is 436 by 254, not 360 by
  216, and the rectangle of button 0 reaches x = 435.
\<close>

theorem panel_extent_counterexample:
  "PanelWidth = 436 \<and> PanelHeight = 254 \<and> MaxX (button_rect 0 0) = 435 \<and> MaxY (button_rect 2 0) = 253"
  by (simp add: button_rect_simps)
     (simp add: PanelWidth_def PanelHeight_def ButtonSize_def NumButtonColumns_def NumButtonRows_def Spacer_def)

lemma panel_tiles_list:
  "panel_tiles =
     [(0, button_rect 0 0), (1, button_rect 0 1), (2, button_rect 0 2), (3, button_rect 0 3),
      (4, button_rect 0 4), (5, button_rect 1 0), (6, button_rect 1 1), (7, button_rect 1 2),
      (8, button_rect 1 3), (9, button_rect 1 4), (10, button_rect 2 0), (11, button_rect 2 1),
      (12, button_rect 2 2), (13, button_rect 2 3), (14, button_rect 2 4)]"
  by (simp add: panel_tiles_def NumButtonColumns_def NumButtonRows_def upto_rec1)

lemma button_rect_apart:
  fixes row col row' col' :: int
  assumes "0 \<le> row" "row < 3" "0 \<le> col" "col < 5"
      and "0 \<le> row'" "row' < 3" "0 \<le> col'" "col' < 5"
      and "row \<noteq> row' \<or> col \<noteq> col'"
  shows "435 - 91 * col < 364 - 91 * col' \<or> 435 - 91 * col' < 364 - 91 * col \<or>
         71 + 91 * row < 91 * row' \<or> 71 + 91 * row' < 91 * row"
  using assms by linarith

text \<open>
  Claim C5, amended. The rectangles of two different buttons are strictly apart in x or
  in y; with the mirroring of the columns undone the rectangle of column \<open>col\<close>
  starts at \<open>col * (72 + 19)\<close>, that of row \<open>row\<close> at \<open>row * (72 + 19)\<close>; each
  rectangle lies in the 72 by 72 cell that starts at its Min corner; the cells and the
  spacers between them fill the panel extent, width 5 * 72 + 4 * 19 = 436 and height
  3 * 72 + 2 * 19 = 254.
\<close>

theorem button_rects_layout:
  assumes "0 \<le> row" "row < NumButtonRows" "0 \<le> col" "col < NumButtonColumns"
      and "0 \<le> row'" "row' < NumButtonRows" "0 \<le> col'" "col' < NumButtonColumns"
      and "row \<noteq> row' \<or> col \<noteq> col'"
  shows "(MaxX (button_rect row col) < MinX (button_rect row' col') \<or>
          MaxX (button_rect row' col') < MinX (button_rect row col) \<or>
          MaxY (button_rect row col) < MinY (button_rect row' col') \<or>
          MaxY (button_rect row' col') < MinY (button_rect row col)) \<and>
         MinX (button_rect row (NumButtonColumns - 1 - col)) = col * (ButtonSize + Spacer) \<and>
         MinY (button_rect row col) = row * (ButtonSize + Spacer) \<and>
         MinX (button_rect row col) \<le> MaxX (button_rect row col) \<and>
         MaxX (button_rect row col) < MinX (button_rect row col) + ButtonSize \<and>
         MinY (button_rect row col) \<le> MaxY (button_rect row col) \<and>
         MaxY (button_rect row col) < MinY (button_rect row col) + ButtonSize \<and>
         (NumButtonColumns - 1) * (ButtonSize + Spacer) + ButtonSize = PanelWidth \<and>
         (NumButtonRows - 1) * (ButtonSize + Spacer) + ButtonSize = PanelHeight \<and>
         PanelWidth = 436 \<and> PanelHeight = 254"
proof -
  have sep: "MaxX (button_rect row col) < MinX (button_rect row' col') \<or>
          MaxX (button_rect row' col') < MinX (button_rect row col) \<or>
          MaxY (button_rect row col) < MinY (button_rect row' col') \<or>
          MaxY (button_rect row' col') < MinY (button_rect row col)"
    unfolding button_rect_simps
    using assms by (intro button_rect_apart) (simp_all add: NumButtonColumns_def NumButtonRows_def)
  show ?thesis
    using sep
    by (simp add: button_rect_simps)
       (simp add: PanelWidth_def PanelHeight_def ButtonSize_def NumButtonColumns_def NumButtonRows_def Spacer_def)
qed


text \<open>The amended claim C5 at the buttons of row 0, column 0 and row 1, column 2.\<close>

theorem button_rects_layout_witness:
  "(0::int) \<le> 0 \<and> 0 < NumButtonRows \<and> 0 < NumButtonColumns \<and> 1 < NumButtonRows \<and>
   2 < NumButtonColumns \<and>
   MaxY (button_rect 0 0) < MinY (button_rect 1 2) \<and>
   MinX (button_rect 0 (NumButtonColumns - 1 - 0)) = 0 \<and>
   MinX (button_rect 0 0) = 364 \<and> MaxX (button_rect 0 0) = 435 \<and>
   PanelWidth = 436 \<and> PanelHeight = 254"
proof -
  have h: "(0::int) \<le> 0" "0 < NumButtonRows" "0 < NumButtonColumns" "(0::int) \<le> 1"
    "1 < NumButtonRows" "(0::int) \<le> 2" "2 < NumButtonColumns" "(0::int) \<noteq> 1 \<or> (0::int) \<noteq> 2"
    by (simp_all add: NumButtonRows_def NumButtonColumns_def)
  show ?thesis
    using h button_rects_layout [OF h(1) h(2) h(1) h(3) h(4) h(5) h(6) h(7) h(8)]
    by (simp add: button_rect_simps)
qed

section \<open>The wire messages of one button\<close>

lemma rescale_solid: "rescale resize (solid_image r g b) = solid_image r g b"
  by (simp add: rescale_def solid_image_def Dx_def Rect_def)

text \<open>
  Claim C3, as stated, fails: on button 0 and a black 72 by 72 image the header of the
  first message is 72 bytes long, not 70, and the payload of the second message is 7803
  bytes long, not 7818.
\<close>

theorem wire_message_sizes_counterexample:
  "length (msg1_prefix 0) = 72 \<and>
   length (page2_of (encode_image (solid_image 0 0 0))) = 7803 \<and>
   FillImage sample_resize 0 (solid_image 0 0 0) sample_deck =
     Done (None, logged [msg1_prefix 0 @ page1_of (encode_image (solid_image 0 0 0)),
                         msg2_prefix 0 @ page2_of (encode_image (solid_image 0 0 0))] sample_deck)"
proof -
  have v: "checkValidKeyIndex 0 = None" by (simp add: checkValidKeyIndex_def)
  show ?thesis
    by (simp add: length_msg1_prefix length_page2 rescale_solid
        FillImage_logged [OF v sample_deck_facts(1)] sample_deck_facts)
qed

text \<open>
  Claim C3, amended. For every button index from 0 to 14 and every image, when the
  first transfer succeeds FillImage writes two messages: the first is a fixed 72-byte
  header, whose only index-dependent byte is byte 5 and equals the index plus one,
  followed by the 7749-byte payload of page 1; the second is a fixed 18-byte header
  with the same index byte followed by the remaining payload of 7803 bytes.
\<close>

theorem FillImage_wire_messages:
  assumes "0 \<le> btnIndex" "btnIndex \<le> 14"
      and "outEndpoint (sd_device sd) = Some ep" and "next_answer sd = None"
  shows "FillImage resize btnIndex img sd =
           Done (next_answer (logged [msg1_prefix btnIndex @ page1_of (encode_image (rescale resize img))] sd),
                 logged [msg1_prefix btnIndex @ page1_of (encode_image (rescale resize img)),
                         msg2_prefix btnIndex @ page2_of (encode_image (rescale resize img))] sd) \<and>
         length (msg1_prefix btnIndex) = 72 \<and>
         msg1_prefix btnIndex = (msg1_prefix 0)[5 := word_of_int (btnIndex + 1)] \<and>
         uint (msg1_prefix btnIndex ! 5) = btnIndex + 1 \<and>
         length (page1_of (encode_image (rescale resize img))) = 7749 \<and>
         length (msg2_prefix btnIndex) = 18 \<and>
         msg2_prefix btnIndex = (msg2_prefix 0)[5 := word_of_int (btnIndex + 1)] \<and>
         uint (msg2_prefix btnIndex ! 5) = btnIndex + 1 \<and>
         length (page2_of (encode_image (rescale resize img))) = 7803"
proof -
  have v: "checkValidKeyIndex btnIndex = None"
    using assms(1,2) by (simp add: checkValidKeyIndex_def)
  have b1: "msg1_prefix btnIndex ! 5 = word_of_int (btnIndex + 1)"
    by (simp add: msg1_prefix_def)
  have b2: "msg2_prefix btnIndex ! 5 = word_of_int (btnIndex + 1)"
    by (simp add: msg2_prefix_def)
  have fill: "FillImage resize btnIndex img sd =
           Done (next_answer (logged [msg1_prefix btnIndex @ page1_of (encode_image (rescale resize img))] sd),
                 logged [msg1_prefix btnIndex @ page1_of (encode_image (rescale resize img)),
                         msg2_prefix btnIndex @ page2_of (encode_image (rescale resize img))] sd)"
    using FillImage_logged [OF v assms(3)] assms(4) by simp
  have u1: "uint (msg1_prefix btnIndex ! 5) = btnIndex + 1"
    unfolding b1 by (rule index_byte [OF assms(1,2)])
  have u2: "uint (msg2_prefix btnIndex ! 5) = btnIndex + 1"
    unfolding b2 by (rule index_byte [OF assms(1,2)])
  show ?thesis
    by (intro conjI fill length_msg1_prefix msg1_prefix_index u1 length_page1
        length_msg2_prefix msg2_prefix_index u2 length_page2)
qed

text \<open>The amended claim C3 at button 3 of the sample deck, filled with black.\<close>

theorem FillImage_wire_messages_witness:
  "FillImage sample_resize 3 (solid_image 0 0 0) sample_deck =
     Done (None, logged [msg1_prefix 3 @ page1_of (encode_image (solid_image 0 0 0)),
                         msg2_prefix 3 @ page2_of (encode_image (solid_image 0 0 0))] sample_deck) \<and>
   uint (msg1_prefix 3 ! 5) = 4 \<and> uint (msg2_prefix 3 ! 5) = 4"
proof -
  have h: "(0::int) \<le> 3" "(3::int) \<le> 14" "outEndpoint (sd_device sample_deck) = Some 2"
    "next_answer sample_deck = None"
    by (simp_all add: sample_deck_facts)
  show ?thesis
    using FillImage_wire_messages [OF h, of sample_resize "solid_image 0 0 0"]
    by (simp add: rescale_solid sample_deck_facts msg1_prefix_def msg2_prefix_def)
qed

section \<open>Writing to a link that is not connected\<close>

text \<open>
  Claim C9, as stated, fails: after a failed read has marked the sample device as not
  connected, a write still hands its bytes to the OUT endpoint and returns without error.
\<close>

theorem write_after_unplug_counterexample:
  "read (replicate 17 0) (Inl (UsbError ''no device'')) sample_usb =
     Done (replicate 17 0, Some (UsbError ''no device''), unplugged_usb) \<and>
   \<not> IsConnected unplugged_usb \<and>
   write_usb [0x02, 0x01] unplugged_usb =
     Done (None, unplugged_usb\<lparr>bus := sample_bus\<lparr>out_log := [[0x02, 0x01]]\<rparr>\<rparr>)"
  by (simp add: read_def write_usb_def unplugged_usb_def sample_usb_def sample_bus_def
      SetConnected_def IsConnected_def)

text \<open>
  Claim C9, amended. The write of the device does not look at the connected flag: on a
  device that has an OUT endpoint every byte sequence is handed to that endpoint,
  whether the link is marked connected or not, and the write fails exactly when that
  transfer fails, with the error of the transfer.
\<close>

theorem write_usb_ignores_connected:
  assumes "outEndpoint d = Some ep"
  shows "write_usb data (SetConnected c d) =
           Done (out_answer (bus d) (length (out_log (bus d))),
                 SetConnected c (d\<lparr>bus := (bus d)\<lparr>out_log := out_log (bus d) @ [data]\<rparr>\<rparr>))"
  using assms by (simp add: write_usb_def SetConnected_def)

text \<open>The amended claim C9 on the sample device, marked as not connected.\<close>

theorem write_usb_ignores_connected_witness:
  "outEndpoint sample_usb = Some 2 \<and>
   write_usb [0x02] (SetConnected False sample_usb) =
     Done (None, SetConnected False (sample_usb\<lparr>bus := sample_bus\<lparr>out_log := [[0x02]]\<rparr>\<rparr>))"
proof -
  have h: "outEndpoint sample_usb = Some 2" by (simp add: sample_usb_def)
  show ?thesis
    using h write_usb_ignores_connected [OF h, of "[0x02]" False]
    by (simp add: sample_usb_def sample_bus_def)
qed


section \<open>Clearing all buttons\<close>

lemma is_page1_msg1: "is_page1 (msg1_prefix i @ c)"
  by (simp add: is_page1_def msg1_prefix_def)

lemma is_page1_msg2: "\<not> is_page1 (msg2_prefix i @ c)"
  by (simp add: is_page1_def msg2_prefix_def)

lemma ClearBtn_logged:
  assumes "0 \<le> i" "i \<le> 15" "outEndpoint (sd_device sd) = Some ep"
  shows "\<exists>err ms. ClearBtn resize i sd = Done (err, logged ms sd) \<and>
                  filter is_page1 ms = [msg1_prefix i @ black_page1]"
proof -
  have v: "checkValidKeyIndex i = None"
    using assms(1,2) by (simp add: checkValidKeyIndex_def)
  have c: "ClearBtn resize i sd = FillImage resize i (solid_image 0 0 0) sd"
    by (simp add: ClearBtn_def v FillColor_def checkRGB_def)
  show ?thesis
  proof (cases "next_answer sd")
    case None
    have "ClearBtn resize i sd =
        Done (next_answer (logged [msg1_prefix i @ black_page1] sd),
              logged [msg1_prefix i @ black_page1,
                      msg2_prefix i @ page2_of (encode_image (solid_image 0 0 0))] sd)"
      unfolding c FillImage_logged [OF v assms(3)]
      using None by (simp add: rescale_solid black_page1_def)
    moreover have "filter is_page1 [msg1_prefix i @ black_page1,
        msg2_prefix i @ page2_of (encode_image (solid_image 0 0 0))] = [msg1_prefix i @ black_page1]"
      by (simp add: is_page1_msg1 is_page1_msg2)
    ultimately show ?thesis by blast
  next
    case (Some e)
    have "ClearBtn resize i sd = Done (next_answer sd, logged [msg1_prefix i @ black_page1] sd)"
      unfolding c FillImage_logged [OF v assms(3)]
      using Some by (simp add: rescale_solid black_page1_def)
    moreover have "filter is_page1 [msg1_prefix i @ black_page1] = [msg1_prefix i @ black_page1]"
      by (simp add: is_page1_msg1)
    ultimately show ?thesis by blast
  qed
qed

lemma clear_loop_logged:
  "n \<le> 16 \<Longrightarrow> outEndpoint (sd_device sd) = Some ep \<Longrightarrow>
   \<exists>ms. clear_loop resize n sd = Done (logged ms sd) \<and>
        filter is_page1 ms = map (\<lambda>i. msg1_prefix (int i) @ black_page1) (rev [0..<n])"
proof (induction n arbitrary: sd)
  case 0
  have "clear_loop resize 0 sd = Done (logged [] sd)" by (simp add: logged_Nil)
  then show ?case by auto
next
  case (Suc n)
  obtain err ms1 where one: "ClearBtn resize (int n) sd = Done (err, logged ms1 sd)"
      and f1: "filter is_page1 ms1 = [msg1_prefix (int n) @ black_page1]"
    using ClearBtn_logged [of "int n" sd ep resize] Suc.prems by auto
  have "outEndpoint (sd_device (logged ms1 sd)) = Some ep"
    using Suc.prems by (simp add: outEndpoint_logged)
  then obtain ms2 where rest: "clear_loop resize n (logged ms1 sd) = Done (logged ms2 (logged ms1 sd))"
      and f2: "filter is_page1 ms2 = map (\<lambda>i. msg1_prefix (int i) @ black_page1) (rev [0..<n])"
    using Suc.IH [of "logged ms1 sd"] Suc.prems by auto
  have "clear_loop resize (Suc n) sd = Done (logged (ms1 @ ms2) sd)"
    by (simp add: one rest logged_logged)
  moreover have "filter is_page1 (ms1 @ ms2) =
      map (\<lambda>i. msg1_prefix (int i) @ black_page1) (rev [0..<Suc n])"
    by (simp add: f1 f2)
  ultimately show ?case by blast
qed

lemma USBDevice_Close_logged: "USBDevice_Close (sd_device (logged ms sd)) = USBDevice_Close (sd_device sd)"
  by (simp add: USBDevice_Close_def logged_def IsConnected_def split: option.splits)

text \<open>
  Claim C10. ClearAllBtns clears the buttons 14 down to 0 and drops what each clear
  returns: whatever the OUT endpoint answers to the transfers, failures included, the
  first message of every button from 14 down to 0 is written, in that order, and
  ClearAllBtns returns the deck and no error. Close returns what closing the device
  returns, and the constructor, once connected, returns the deck.
\<close>

theorem ClearAllBtns_sweeps_all_buttons:
  assumes "outEndpoint (sd_device sd) = Some ep"
      and "Connect (NewUSBDevice ProductID VendorID b) = (None, d)" and "outEndpoint d = Some ep'"
  shows "(\<exists>ms. ClearAllBtns resize sd = Done (logged ms sd) \<and>
               filter is_page1 ms = map (\<lambda>i. msg1_prefix (int i) @ black_page1) (rev [0..<15]) \<and>
               Close resize sd =
                 (case USBDevice_Close (sd_device sd) of
                    Panic \<Rightarrow> Panic
                  | Done err \<Rightarrow> Done (err, logged ms sd))) \<and>
         (\<exists>ms. NewStreamDeck resize b [] = Done (Inr (logged ms (new_deck d))) \<and>
               filter is_page1 ms = map (\<lambda>i. msg1_prefix (int i) @ black_page1) (rev [0..<15]))"
proof -
  obtain ms where sweep: "ClearAllBtns resize sd = Done (logged ms sd)"
      and f: "filter is_page1 ms = map (\<lambda>i. msg1_prefix (int i) @ black_page1) (rev [0..<15])"
    using clear_loop_logged [of 15 sd ep resize] assms(1) by (auto simp: ClearAllBtns_def)
  have "Close resize sd =
          (case USBDevice_Close (sd_device sd) of Panic \<Rightarrow> Panic | Done err \<Rightarrow> Done (err, logged ms sd))"
    by (simp add: Close_def sweep USBDevice_Close_logged)
  then have first: "\<exists>ms. ClearAllBtns resize sd = Done (logged ms sd) \<and>
               filter is_page1 ms = map (\<lambda>i. msg1_prefix (int i) @ black_page1) (rev [0..<15]) \<and>
               Close resize sd =
                 (case USBDevice_Close (sd_device sd) of
                    Panic \<Rightarrow> Panic
                  | Done err \<Rightarrow> Done (err, logged ms sd))"
    using sweep f by blast
  have "outEndpoint (sd_device (new_deck d)) = Some ep'"
    using assms(3) by (simp add: new_deck_def)
  then obtain ms' where sweep': "ClearAllBtns resize (new_deck d) = Done (logged ms' (new_deck d))"
      and f': "filter is_page1 ms' = map (\<lambda>i. msg1_prefix (int i) @ black_page1) (rev [0..<15])"
    using clear_loop_logged [of 15 "new_deck d" ep' resize] by (auto simp: ClearAllBtns_def)
  have "NewStreamDeck resize b [] = Done (Inr (logged ms' (new_deck d)))"
    by (simp add: NewStreamDeck_def check_serial_def Let_def assms(2) sweep')
  then show ?thesis using first f' by blast
qed

lemma stalled_facts:
  "outEndpoint (sd_device stalled_deck) = Some 2"
  "Connect (NewUSBDevice ProductID VendorID stalled_bus) = (None, stalled_usb)"
  "outEndpoint stalled_usb = Some 2"
  "next_answer stalled_deck = Some (UsbError ''stall'')"
  by (simp_all add: stalled_deck_def stalled_usb_def stalled_bus_def sample_deck_def sample_usb_def
      sample_bus_def sample_device_def Connect_def NewUSBDevice_def SetConnected_def Let_def
      next_answer_def)

text \<open>
  Claim C10 on a deck whose every transfer fails: clearing button 14 returns the error,
  and still all fifteen buttons are swept and the constructor returns the deck.
\<close>

theorem ClearAllBtns_sweeps_all_buttons_witness:
  "ClearBtn sample_resize 14 stalled_deck =
     Done (Some (UsbError ''stall''), logged [msg1_prefix 14 @ black_page1] stalled_deck) \<and>
   (\<exists>ms. ClearAllBtns sample_resize stalled_deck = Done (logged ms stalled_deck) \<and>
         map (\<lambda>m. m ! 5) (filter is_page1 ms) = [15, 14, 13, 12, 11, 10, 9, 8, 7, 6, 5, 4, 3, 2, 1]) \<and>
   (\<exists>ms. NewStreamDeck sample_resize stalled_bus [] = Done (Inr (logged ms (new_deck stalled_usb))))"
proof -
  have v: "checkValidKeyIndex 14 = None" by (simp add: checkValidKeyIndex_def)
  have one: "ClearBtn sample_resize 14 stalled_deck =
     Done (Some (UsbError ''stall''), logged [msg1_prefix 14 @ black_page1] stalled_deck)"
    by (simp add: ClearBtn_def v FillColor_def checkRGB_def FillImage_logged [OF v stalled_facts(1)]
        stalled_facts(4) rescale_solid black_page1_def)
  have idx: "map (\<lambda>m. m ! 5) (map (\<lambda>i. msg1_prefix (int i) @ black_page1) (rev [0..<15])) =
      [15, 14, 13, 12, 11, 10, 9, 8, 7, 6, 5, 4, 3, 2, 1]"
    by (simp add: msg1_prefix_def upt_rec)
  show ?thesis
    using ClearAllBtns_sweeps_all_buttons [OF stalled_facts(1) stalled_facts(2) stalled_facts(3), of sample_resize] one idx
    by auto
qed


section \<open>Properties of the event loop\<close>

lemma btn_loop_closed:
  "length (btnState sd) = i + length data \<Longrightarrow>
   btn_loop i data sd =
     Done (sd\<lparr>btnState := take i (btnState sd) @ translate data,
              dispatched := dispatched sd @
                (if btnEventCb sd then transitions i (drop i (btnState sd)) (translate data) else [])\<rparr>)"
proof (induction data arbitrary: i sd)
  case Nil
  then show ?case by (simp add: translate_def)
next
  case (Cons b data)
  let ?s = "intToButtonState (uint b)"
  have i: "i < length (btnState sd)" using Cons.prems by simp
  have dr: "drop i (btnState sd) = btnState sd ! i # drop (Suc i) (btnState sd)"
    using i by (simp add: Cons_nth_drop_Suc)
  have tk: "take (Suc i) (btnState sd) = take i (btnState sd) @ [btnState sd ! i]"
    using i by (simp add: take_Suc_conv_app_nth)
  show ?case
  proof (cases "btnState sd ! i = ?s")
    case True
    have "btn_loop i (b # data) sd = btn_loop (Suc i) data sd"
      using i True by simp
    also have "\<dots> = Done (sd\<lparr>btnState := take (Suc i) (btnState sd) @ translate data,
              dispatched := dispatched sd @
                (if btnEventCb sd then transitions (Suc i) (drop (Suc i) (btnState sd)) (translate data) else [])\<rparr>)"
      using Cons.prems by (intro Cons.IH) simp
    finally show ?thesis
      using True by (simp add: dr tk translate_def)
  next
    case False
    let ?sd1 = "sd\<lparr>btnState := (btnState sd)[i := ?s]\<rparr>"
    let ?sd2 = "if btnEventCb sd then ?sd1\<lparr>dispatched := dispatched sd @ [(i, ?s)]\<rparr> else ?sd1"
    have step: "btn_loop i (b # data) sd = btn_loop (Suc i) data ?sd2"
      using i False by (simp add: Let_def)
    have len: "length (btnState ?sd2) = Suc i + length data"
      using Cons.prems by simp
    have bs: "btnState ?sd2 = (btnState sd)[i := ?s]" by simp
    have tk2: "take (Suc i) ((btnState sd)[i := ?s]) = take i (btnState sd) @ [?s]"
      using i by (simp add: take_Suc_conv_app_nth)
    show ?thesis
      unfolding step Cons.IH [OF len]
      using False by (simp add: dr tk2 translate_def)
  qed
qed


lemma transitions_filter:
  "length olds = length news \<Longrightarrow>
   transitions i olds news =
     map (\<lambda>j. (i + j, news ! j)) (filter (\<lambda>j. olds ! j \<noteq> news ! j) [0..<length news])"
proof (induction olds news arbitrary: i rule: list_induct2)
  case Nil
  then show ?case by simp
next
  case (Cons old olds new news)
  have up: "[0..<length (new # news)] = 0 # map Suc [0..<length news]"
    by (simp add: upt_conv_Cons map_Suc_upt del: upt_Suc)
  show ?case
    unfolding up by (simp add: Cons.IH filter_map o_def)
qed

lemma translate_states: "translate (drop 1 (take (length data - 1) data)) = report_states data"
proof -
  have "butlast (tl data) = drop 1 (take (length data - 1) data)"
    by (simp add: butlast_conv_take drop_Suc tl_take drop_take)
  moreover have "\<And>b :: byte. intToButtonState (uint b) = (if b = 0 then BtnReleased else BtnPressed)"
    by (simp add: intToButtonState_def uint_0_iff)
  ultimately show ?thesis by (simp add: translate_def report_states_def)
qed

lemma length_report_states: "length data = OutEndpointBufferSize \<Longrightarrow> length (report_states data) = 15"
  by (simp add: report_states_def OutEndpointBufferSize_def)

lemma length_read_buffer: "length (read_buffer received) = OutEndpointBufferSize"
  by (simp add: read_buffer_def)

lemma dispatch_report_closed:
  assumes "length (btnState sd) = NumButtons" and "length data = OutEndpointBufferSize"
  shows "dispatch_report data sd =
     Done (sd\<lparr>btnState := report_states data,
              dispatched := dispatched sd @
                (if btnEventCb sd
                 then map (\<lambda>i. (i, report_states data ! i))
                        (filter (\<lambda>i. btnState sd ! i \<noteq> report_states data ! i) [0..<NumButtons])
                 else [])\<rparr>)"
proof -
  have l: "length (report_states data) = 15" by (rule length_report_states [OF assms(2)])
  have s: "strip_markers data = Done (drop 1 (take (length data - 1) data))"
    using assms(2) by (simp add: strip_markers_def OutEndpointBufferSize_def)
  have len: "length (btnState sd) = 0 + length (drop 1 (take (length data - 1) data))"
    using assms by (simp add: NumButtons_def OutEndpointBufferSize_def)
  have t: "transitions 0 (btnState sd) (report_states data) =
      map (\<lambda>i. (i, report_states data ! i))
        (filter (\<lambda>i. btnState sd ! i \<noteq> report_states data ! i) [0..<NumButtons])"
    using transitions_filter [of "btnState sd" "report_states data" 0] assms(1) l
    by (simp add: NumButtons_def)
  have "dispatch_report data sd = btn_loop 0 (drop 1 (take (length data - 1) data)) sd"
    by (simp add: dispatch_report_def s)
  also have "\<dots> =
      Done (sd\<lparr>btnState := take 0 (btnState sd) @ translate (drop 1 (take (length data - 1) data)),
               dispatched := dispatched sd @
                 (if btnEventCb sd
                  then transitions 0 (drop 0 (btnState sd)) (translate (drop 1 (take (length data - 1) data)))
                  else [])\<rparr>)"
    by (rule btn_loop_closed [OF len])
  finally show ?thesis
    by (simp only: translate_states t take_0 drop_0 append_Nil)
qed

lemma Serve_Nil:
  "Serve stop [] sd =
     (if stop = Some 0 then (Returned None, sd)
      else case reconnect sd of
             (Some err, sd1) \<Rightarrow> (Returned (Some err), sd1)
           | (None, sd1) \<Rightarrow>
               (if inEndpoint (sd_device sd1) = None then (Panicked, sd1)
                else if stop = None then (Blocked, sd1)
                else (Returned None, sd1)))"
  by (subst Serve.simps) (simp split: prod.split option.split)

lemma Serve_Cons:
  "Serve stop (answer # rest) sd =
     (if stop = Some 0 then (Returned None, sd)
      else case reconnect sd of
             (Some err, sd1) \<Rightarrow> (Returned (Some err), sd1)
           | (None, sd1) \<Rightarrow>
               (case read (replicate OutEndpointBufferSize 0) answer (sd_device sd1) of
                  Panic \<Rightarrow> (Panicked, sd1)
                | Done (data, Some err, d) \<Rightarrow> (Returned (Some err), sd1\<lparr>sd_device := d\<rparr>)
                | Done (data, None, d) \<Rightarrow>
                    (case dispatch_report data (sd1\<lparr>sd_device := d\<rparr>) of
                       Panic \<Rightarrow> (Panicked, sd1\<lparr>sd_device := d\<rparr>)
                     | Done sd2 \<Rightarrow> Serve (map_option (\<lambda>n. n - 1) stop) rest sd2)))"
  by (subst Serve.simps) (simp split: prod.split option.split)

lemma Serve_round:
  assumes "IsConnected (sd_device sd)" "inEndpoint (sd_device sd) = Some ep" "stop \<noteq> Some 0"
  shows "Serve stop (Inr received # rest) sd =
     (case dispatch_report (read_buffer received) sd of
        Panic \<Rightarrow> (Panicked, sd)
      | Done sd2 \<Rightarrow> Serve (map_option (\<lambda>n. n - 1) stop) rest sd2)"
  using assms by (simp add: Serve_Cons reconnect_def read_def read_buffer_def split: outcome.split)


lemma Serve_stopped: "Serve (Some 0) reads sd = (Returned None, sd)"
  by (subst Serve.simps) simp

lemma Serve_round_closed:
  assumes "length (btnState sd) = NumButtons"
      and "IsConnected (sd_device sd)" "inEndpoint (sd_device sd) = Some ep" "stop \<noteq> Some 0"
  shows "Serve stop (Inr received # rest) sd =
           Serve (map_option (\<lambda>n. n - 1) stop) rest
             (sd\<lparr>btnState := report_states (read_buffer received),
                 dispatched := dispatched sd @
                   (if btnEventCb sd
                    then map (\<lambda>i. (i, report_states (read_buffer received) ! i))
                           (filter (\<lambda>i. btnState sd ! i \<noteq> report_states (read_buffer received) ! i)
                              [0..<NumButtons])
                    else [])\<rparr>) \<and>
         length (report_states (read_buffer received)) = NumButtons \<and>
         (report_states (read_buffer received) = btnState sd \<longrightarrow>
            Serve stop (Inr received # rest) sd = Serve (map_option (\<lambda>n. n - 1) stop) rest sd)"
proof -
  let ?new = "report_states (read_buffer received)"
  have d: "dispatch_report (read_buffer received) sd =
     Done (sd\<lparr>btnState := ?new,
              dispatched := dispatched sd @
                (if btnEventCb sd
                 then map (\<lambda>i. (i, ?new ! i)) (filter (\<lambda>i. btnState sd ! i \<noteq> ?new ! i) [0..<NumButtons])
                 else [])\<rparr>)"
    by (rule dispatch_report_closed [OF assms(1) length_read_buffer])
  have round: "Serve stop (Inr received # rest) sd =
           Serve (map_option (\<lambda>n. n - 1) stop) rest
             (sd\<lparr>btnState := ?new,
                 dispatched := dispatched sd @
                   (if btnEventCb sd
                    then map (\<lambda>i. (i, ?new ! i)) (filter (\<lambda>i. btnState sd ! i \<noteq> ?new ! i) [0..<NumButtons])
                    else [])\<rparr>)"
    unfolding Serve_round [OF assms(2,3,4)] d by simp
  have len: "length ?new = NumButtons"
    using length_report_states [OF length_read_buffer] by (simp add: NumButtons_def)
  have same: "?new = btnState sd \<longrightarrow>
      Serve stop (Inr received # rest) sd = Serve (map_option (\<lambda>n. n - 1) stop) rest sd"
  proof
    assume eq: "?new = btnState sd"
    have "sd\<lparr>btnState := ?new, dispatched := dispatched sd @
                   (if btnEventCb sd
                    then map (\<lambda>i. (i, ?new ! i)) (filter (\<lambda>i. btnState sd ! i \<noteq> ?new ! i) [0..<NumButtons])
                    else [])\<rparr> = sd"
      unfolding eq by simp
    then show "Serve stop (Inr received # rest) sd = Serve (map_option (\<lambda>n. n - 1) stop) rest sd"
      using round by simp
  qed
  show ?thesis using round len same by (intro conjI)
qed

lemma sample_deck_serve_facts:
  "length (btnState sample_deck) = NumButtons" "IsConnected (sd_device sample_deck)"
  "inEndpoint (sd_device sample_deck) = Some 1" "btnEventCb sample_deck"
  "btnState sample_deck = replicate 15 BtnReleased" "dispatched sample_deck = []"
  by (simp_all add: sample_deck_def sample_usb_def IsConnected_def NumButtons_def)

lemma report_states_examples:
  "report_states (read_buffer zero_report) = replicate 15 BtnReleased"
  "report_states (read_buffer (zero_report[3 := 1])) = (replicate 15 BtnReleased)[2 := BtnPressed]"
  "report_states (read_buffer (zero_report[4 := 1])) = (replicate 15 BtnReleased)[3 := BtnPressed]"
  by code_simp+

lemma changed_examples:
  "map (\<lambda>i. (i, (replicate 15 BtnReleased)[3 := BtnPressed] ! i))
     (filter (\<lambda>i. replicate 15 BtnReleased ! i \<noteq> (replicate 15 BtnReleased)[3 := BtnPressed] ! i)
        [0..<NumButtons]) = [(3, BtnPressed)]"
  "map (\<lambda>i. (i, (replicate 15 BtnReleased)[2 := BtnPressed] ! i))
     (filter (\<lambda>i. replicate 15 BtnReleased ! i \<noteq> (replicate 15 BtnReleased)[2 := BtnPressed] ! i)
        [0..<NumButtons]) = [(2, BtnPressed)]"
  by code_simp+

lemma sample_rounds:
  "Serve (Some 2) [Inr zero_report, Inr zero_report] sample_deck = (Returned None, sample_deck)"
  "Serve (Some 2) [Inr zero_report, Inr (zero_report[3 := 1])] sample_deck =
     (Returned None, sample_deck\<lparr>btnState := (replicate 15 BtnReleased)[2 := BtnPressed],
                                 dispatched := [(2, BtnPressed)]\<rparr>)"
  "Serve (Some 2) [Inr zero_report, Inr (zero_report[4 := 1])] sample_deck =
     (Returned None, sample_deck\<lparr>btnState := (replicate 15 BtnReleased)[3 := BtnPressed],
                                 dispatched := [(3, BtnPressed)]\<rparr>)"
proof -
  have z: "report_states (read_buffer zero_report) = btnState sample_deck"
    by (simp add: report_states_examples sample_deck_serve_facts)
  have d1: "dispatch_report (read_buffer zero_report) sample_deck = Done sample_deck"
    unfolding dispatch_report_closed [OF sample_deck_serve_facts(1) length_read_buffer] z
    by simp
  have d2: "dispatch_report (read_buffer (zero_report[3 := 1])) sample_deck =
      Done (sample_deck\<lparr>btnState := (replicate 15 BtnReleased)[2 := BtnPressed],
                        dispatched := [(2, BtnPressed)]\<rparr>)"
    unfolding dispatch_report_closed [OF sample_deck_serve_facts(1) length_read_buffer]
    by (simp only: report_states_examples sample_deck_serve_facts changed_examples) simp
  have d3: "dispatch_report (read_buffer (zero_report[4 := 1])) sample_deck =
      Done (sample_deck\<lparr>btnState := (replicate 15 BtnReleased)[3 := BtnPressed],
                        dispatched := [(3, BtnPressed)]\<rparr>)"
    unfolding dispatch_report_closed [OF sample_deck_serve_facts(1) length_read_buffer]
    by (simp only: report_states_examples sample_deck_serve_facts changed_examples) simp
  show "Serve (Some 2) [Inr zero_report, Inr zero_report] sample_deck = (Returned None, sample_deck)"
    by (simp add: Serve_round [OF sample_deck_serve_facts(2,3)] d1 Serve_stopped)
  show "Serve (Some 2) [Inr zero_report, Inr (zero_report[3 := 1])] sample_deck =
     (Returned None, sample_deck\<lparr>btnState := (replicate 15 BtnReleased)[2 := BtnPressed],
                                 dispatched := [(2, BtnPressed)]\<rparr>)"
    by (simp add: Serve_round [OF sample_deck_serve_facts(2,3)] d1 d2 Serve_stopped)
  show "Serve (Some 2) [Inr zero_report, Inr (zero_report[4 := 1])] sample_deck =
     (Returned None, sample_deck\<lparr>btnState := (replicate 15 BtnReleased)[3 := BtnPressed],
                                 dispatched := [(3, BtnPressed)]\<rparr>)"
    by (simp add: Serve_round [OF sample_deck_serve_facts(2,3)] d1 d3 Serve_stopped)
qed

text \<open>
  Claim C6, as stated, fails in its example: after the all-zero report, a report that
  differs from it only at byte index 3 fires the callback for button 2, not for button
  3, since byte 0 of the report is a marker.
\<close>

theorem report_byte3_counterexample:
  "Serve (Some 2) [Inr zero_report, Inr (zero_report[3 := 1])] sample_deck =
     (Returned None, sample_deck\<lparr>btnState := (replicate 15 BtnReleased)[2 := BtnPressed],
                                 dispatched := [(2, BtnPressed)]\<rparr>) \<and>
   dispatched (snd (Serve (Some 2) [Inr zero_report, Inr (zero_report[3 := 1])] sample_deck))
     \<noteq> [(3, BtnPressed)]"
  by (simp add: sample_rounds(2))

text \<open>
  Claim C6, amended. For every successfully read report the loop drops the first and
  the last byte and reads each of the 15 remaining bytes as released (0) or pressed
  (not 0); for each index whose new state differs from the cached one it updates the
  cache and starts the registered callback with the index and the new state, in
  ascending index order; a report equal to the cached states starts no callback and
  leaves the cache as it is. So the all-zero report read into the initial state fires no
  callback, a follow-up report differing only at byte index 3 fires exactly the callback
  (2, Pressed), and one differing only at byte index 4 fires exactly (3, Pressed).
\<close>

theorem Serve_report_dispatch:
  assumes "length (btnState sd) = NumButtons"
      and "IsConnected (sd_device sd)" "inEndpoint (sd_device sd) = Some ep" "stop \<noteq> Some 0"
  shows "Serve stop (Inr received # rest) sd =
           Serve (map_option (\<lambda>n. n - 1) stop) rest
             (sd\<lparr>btnState := report_states (read_buffer received),
                 dispatched := dispatched sd @
                   (if btnEventCb sd
                    then map (\<lambda>i. (i, report_states (read_buffer received) ! i))
                           (filter (\<lambda>i. btnState sd ! i \<noteq> report_states (read_buffer received) ! i)
                              [0..<NumButtons])
                    else [])\<rparr>) \<and>
         length (report_states (read_buffer received)) = NumButtons \<and>
         (report_states (read_buffer received) = btnState sd \<longrightarrow>
            Serve stop (Inr received # rest) sd = Serve (map_option (\<lambda>n. n - 1) stop) rest sd) \<and>
         Serve (Some 2) [Inr zero_report, Inr zero_report] sample_deck = (Returned None, sample_deck) \<and>
         Serve (Some 2) [Inr zero_report, Inr (zero_report[3 := 1])] sample_deck =
           (Returned None, sample_deck\<lparr>btnState := (replicate 15 BtnReleased)[2 := BtnPressed],
                                       dispatched := [(2, BtnPressed)]\<rparr>) \<and>
         Serve (Some 2) [Inr zero_report, Inr (zero_report[4 := 1])] sample_deck =
           (Returned None, sample_deck\<lparr>btnState := (replicate 15 BtnReleased)[3 := BtnPressed],
                                       dispatched := [(3, BtnPressed)]\<rparr>)"
  using Serve_round_closed [OF assms, of received rest] sample_rounds by (intro conjI) simp_all

lemma two_presses:
  "report_states (read_buffer (zero_report[1 := 1, 15 := 7])) =
     (replicate 15 BtnReleased)[0 := BtnPressed, 14 := BtnPressed]"
  "map (\<lambda>i. (i, (replicate 15 BtnReleased)[0 := BtnPressed, 14 := BtnPressed] ! i))
     (filter (\<lambda>i. replicate 15 BtnReleased ! i \<noteq>
                   (replicate 15 BtnReleased)[0 := BtnPressed, 14 := BtnPressed] ! i)
        [0..<NumButtons]) = [(0, BtnPressed), (14, BtnPressed)]"
  by code_simp+

text \<open>
  The amended claim C6 on the sample deck and a report with two pressed buttons: the
  callbacks for buttons 0 and 14 are started in that order, then the read blocks.
\<close>

theorem Serve_report_dispatch_witness:
  "Serve None [Inr (zero_report[1 := 1, 15 := 7])] sample_deck =
     (Blocked, sample_deck\<lparr>btnState := (replicate 15 BtnReleased)[0 := BtnPressed, 14 := BtnPressed],
                           dispatched := [(0, BtnPressed), (14, BtnPressed)]\<rparr>)"
proof -
  have s: "(None :: nat option) \<noteq> Some 0" by simp
  have r: "Serve None [Inr (zero_report[1 := 1, 15 := 7])] sample_deck =
      Serve None []
        (sample_deck\<lparr>btnState := (replicate 15 BtnReleased)[0 := BtnPressed, 14 := BtnPressed],
                     dispatched := [(0, BtnPressed), (14, BtnPressed)]\<rparr>)"
    using Serve_report_dispatch [OF sample_deck_serve_facts(1,2,3) s, of "zero_report[1 := 1, 15 := 7]" "[]"]
    by (simp only: two_presses sample_deck_serve_facts) simp
  show ?thesis
    unfolding r
    by (simp add: Serve_Nil reconnect_def sample_deck_def sample_usb_def IsConnected_def)
qed

section \<open>Read errors in the event loop\<close>

text \<open>
  Claim C1, as stated, fails: on the sample deck a failing read ends Serve with the read
  error. No connect is attempted (the count of \<open>OpenDevices\<close> calls is unchanged),
  although a connect would have succeeded, and the report that follows is never read.
\<close>

theorem Serve_read_error_counterexample:
  "Serve None [Inl (UsbError ''no device''), Inr zero_report] sample_deck =
     (Returned (Some (UsbError ''no device'')), sample_deck\<lparr>sd_device := unplugged_usb\<rparr>) \<and>
   opens (bus unplugged_usb) = opens (bus sample_usb) \<and>
   Connect unplugged_usb = (None, sample_usb\<lparr>bus := sample_bus\<lparr>opens := 2\<rparr>\<rparr>)"
  by (simp add: Serve_Cons reconnect_def read_def sample_deck_def sample_usb_def sample_bus_def
      sample_device_def unplugged_usb_def SetConnected_def IsConnected_def Connect_def Let_def)

text \<open>
  Claim C1, amended. For every read error while Serve is running, the link is marked
  disconnected and Serve ends: the error returned to the caller is that read error, and
  no connect is attempted in that call, whether a connect would succeed or fail.
  Connect is attempted at the head of a round that finds the link disconnected, as on
  entry of a later call of Serve; when that attempt fails, that call ends at once with
  the error of the connect.
\<close>

theorem Serve_read_error_ends_loop:
  assumes "IsConnected (sd_device sd)" "inEndpoint (sd_device sd) = Some ep" "stop \<noteq> Some 0"
  shows "Serve stop (Inl err # rest) sd =
           (Returned (Some err), sd\<lparr>sd_device := SetConnected False (sd_device sd)\<rparr>) \<and>
         \<not> IsConnected (SetConnected False (sd_device sd)) \<and>
         bus (SetConnected False (sd_device sd)) = bus (sd_device sd) \<and>
         (stop' \<noteq> Some 0 \<and> Connect (SetConnected False (sd_device sd)) = (Some cerr, d) \<longrightarrow>
            Serve stop' reads' (sd\<lparr>sd_device := SetConnected False (sd_device sd)\<rparr>) =
              (Returned (Some cerr), sd\<lparr>sd_device := d\<rparr>))"
proof -
  have a: "Serve stop (Inl err # rest) sd =
           (Returned (Some err), sd\<lparr>sd_device := SetConnected False (sd_device sd)\<rparr>)"
    using assms by (simp add: Serve_Cons reconnect_def read_def)
  have b: "\<not> IsConnected (SetConnected False (sd_device sd))"
          "bus (SetConnected False (sd_device sd)) = bus (sd_device sd)"
    by (simp_all add: IsConnected_def SetConnected_def)
  have c: "stop' \<noteq> Some 0 \<and> Connect (SetConnected False (sd_device sd)) = (Some cerr, d) \<longrightarrow>
            Serve stop' reads' (sd\<lparr>sd_device := SetConnected False (sd_device sd)\<rparr>) =
              (Returned (Some cerr), sd\<lparr>sd_device := d\<rparr>)"
  proof
    assume h: "stop' \<noteq> Some 0 \<and> Connect (SetConnected False (sd_device sd)) = (Some cerr, d)"
    have r: "reconnect (sd\<lparr>sd_device := SetConnected False (sd_device sd)\<rparr>) =
        (Some cerr, sd\<lparr>sd_device := d\<rparr>)"
      using b(1) h by (simp add: reconnect_def)
    show "Serve stop' reads' (sd\<lparr>sd_device := SetConnected False (sd_device sd)\<rparr>) =
              (Returned (Some cerr), sd\<lparr>sd_device := d\<rparr>)"
      using h by (subst Serve.simps) (simp add: r)
  qed
  show ?thesis using a b c by (intro conjI)
qed

lemma lost_deck_facts:
  "IsConnected (sd_device lost_deck)" "inEndpoint (sd_device lost_deck) = Some 1"
  "Connect (SetConnected False (sd_device lost_deck)) =
     (Some (UsbError ''libusb: no device''),
      SetConnected False (sample_usb\<lparr>bus := lost_bus\<lparr>opens := 2\<rparr>\<rparr>))"
  by (simp_all add: lost_deck_def lost_bus_def sample_deck_def sample_usb_def sample_bus_def
      IsConnected_def SetConnected_def Connect_def Let_def)

text \<open>
  The amended claim C1 on the sample deck, where a connect would succeed, and on a deck
  whose device has left the bus: in both the failing read ends the call with the read
  error; on the second the next call ends with the error of the connect.
\<close>

theorem Serve_read_error_ends_loop_witness:
  "Serve None [Inl (UsbError ''no device''), Inr zero_report] sample_deck =
     (Returned (Some (UsbError ''no device'')),
      sample_deck\<lparr>sd_device := SetConnected False (sd_device sample_deck)\<rparr>) \<and>
   Serve None [Inl (UsbError ''no device''), Inr zero_report] lost_deck =
     (Returned (Some (UsbError ''no device'')),
      lost_deck\<lparr>sd_device := SetConnected False (sd_device lost_deck)\<rparr>) \<and>
   Serve None [Inr zero_report] (lost_deck\<lparr>sd_device := SetConnected False (sd_device lost_deck)\<rparr>) =
     (Returned (Some (UsbError ''libusb: no device'')),
      lost_deck\<lparr>sd_device := SetConnected False (sample_usb\<lparr>bus := lost_bus\<lparr>opens := 2\<rparr>\<rparr>)\<rparr>)"
proof -
  have s: "(None :: nat option) \<noteq> Some 0" by simp
  have first: "Serve None [Inl (UsbError ''no device''), Inr zero_report] sample_deck =
     (Returned (Some (UsbError ''no device'')),
      sample_deck\<lparr>sd_device := SetConnected False (sd_device sample_deck)\<rparr>)"
    by (rule Serve_read_error_ends_loop [OF sample_deck_serve_facts(2,3) s, THEN conjunct1])
  show ?thesis
    using first s lost_deck_facts(3)
      Serve_read_error_ends_loop [OF lost_deck_facts(1,2) s,
        of "UsbError ''no device''" "[Inr zero_report]" None "UsbError ''libusb: no device''"
           "SetConnected False (sample_usb\<lparr>bus := lost_bus\<lparr>opens := 2\<rparr>\<rparr>)" "[Inr zero_report]"]
    by simp
qed

end
